theory Spec2Isabelle
  imports Complex_Main "HOL-Library.Word"
begin

section \<open>The proxy session of websocketProxy.js\<close>

subsection \<open>Frames, envelopes and sockets\<close>

text \<open>
  A text frame carries JSON. The handlers of \<^verbatim>\<open>handleWebSocketConnection\<close> never look at
  the characters of a frame: they call \<^verbatim>\<open>JSON.parse\<close>, read the property \<^verbatim>\<open>type\<close> of
  the result and hand the result to \<^verbatim>\<open>JSON.stringify\<close>. A text frame is therefore
  represented by what \<^verbatim>\<open>JSON.parse\<close> makes of it: either the exception it throws or the
  value it returns. An object is the list of its properties.
\<close>

type_synonym byte = "8 word"

datatype json =
    JNull
  | JBool bool
  | JNum real
  | JStr string
  | JArr "json list"
  | JObj "(string \<times> json) list"

datatype parsed = SyntaxError | Value json

datatype frame = Binary "byte list" | Text parsed

text \<open>
  Reading a property: \<^verbatim>\<open>null.type\<close> throws a TypeError, an object yields the property
  or \<^verbatim>\<open>undefined\<close> (here \<open>None\<close>), and numbers, booleans, strings and arrays have no
  property of that name.
\<close>

datatype js_error = TypeError

fun get_prop :: "json \<Rightarrow> string \<Rightarrow> js_error + json option" where
  "get_prop JNull k = Inl TypeError"
| "get_prop (JObj ps) k = Inr (map_of ps k)"
| "get_prop j k = Inr None"

text \<open>The constants \<^verbatim>\<open>WebSocket.CONNECTING\<close>, \<^verbatim>\<open>OPEN\<close>, \<^verbatim>\<open>CLOSING\<close>, \<^verbatim>\<open>CLOSED\<close>.\<close>

datatype readyState = CONNECTING | OPEN | CLOSING | CLOSED

text \<open>
  The closure of \<^verbatim>\<open>handleWebSocketConnection\<close>: the two flags, and the \<^verbatim>\<open>readyState\<close> of the
  two sockets, which the handlers read.
\<close>

record proxy =
  frontendWs :: readyState
  elevenLabsWs :: readyState
  isElevenLabsClosed :: bool
  isElevenLabsReady :: bool

text \<open>
  What a handler does to the sockets, in the order of the calls. \<open>FrontendSend j\<close> is
  \<^verbatim>\<open>frontendWs.send(JSON.stringify(j))\<close>, \<open>FrontendSendBinary d\<close> is
  \<^verbatim>\<open>frontendWs.send(d, { binary: true })\<close>. \<open>Uncaught\<close> marks a handler that ends in an
  exception nobody catches (\<^verbatim>\<open>send\<close> on a socket that is still connecting throws).
\<close>

datatype effect =
    FrontendSend json
  | FrontendSendBinary "byte list"
  | FrontendClose
  | ElevenLabsSend json
  | ElevenLabsPong
  | ElevenLabsClose nat string
  | Uncaught

text \<open>
  \<^verbatim>\<open>close()\<close> of the \<^verbatim>\<open>ws\<close> library leaves a closed socket alone and moves every other
  socket to \<^verbatim>\<open>CLOSING\<close>; the socket reaches \<^verbatim>\<open>CLOSED\<close> later, when its close event fires.
\<close>

fun ws_close :: "readyState \<Rightarrow> readyState" where
  "ws_close CLOSED = CLOSED"
| "ws_close r = CLOSING"

subsection \<open>The envelopes the proxy writes itself\<close>

definition conversationEnded :: json where
  "conversationEnded = JObj [(''type'', JStr ''conversationEnded'')]"

definition elevenlabsReady :: json where
  "elevenlabsReady = JObj [(''type'', JStr ''elevenlabsReady'')]"

definition connection_failed :: "string \<Rightarrow> json" where
  "connection_failed details =
     JObj [(''type'', JStr ''error''),
           (''message'', JStr ''Connection failed to ElevenLabs.''),
           (''details'', JStr details)]"

definition processing_error :: json where
  "processing_error =
     JObj [(''type'', JStr ''error''),
           (''message'', JStr ''Error processing message from agent.'')]"

subsection \<open>The handlers of the upstream socket\<close>

definition elevenLabs_on_open :: "proxy \<Rightarrow> proxy \<times> effect list" where
  "elevenLabs_on_open s = (s, [])"

definition elevenLabs_on_error :: "proxy \<Rightarrow> string \<Rightarrow> proxy \<times> effect list" where
  "elevenLabs_on_error s msg =
     (s\<lparr>isElevenLabsClosed := True\<rparr>,
      if frontendWs s = OPEN then [FrontendSend (connection_failed msg)] else [])"

definition elevenLabs_on_close :: "proxy \<Rightarrow> proxy \<times> effect list" where
  "elevenLabs_on_close s =
     (let s1 = s\<lparr>isElevenLabsClosed := True\<rparr> in
      if frontendWs s1 \<noteq> CLOSED \<and> frontendWs s1 \<noteq> CLOSING then
        (if frontendWs s1 = CONNECTING then (s1, [Uncaught])
         else (s1\<lparr>frontendWs := ws_close (frontendWs s1)\<rparr>,
               [FrontendSend conversationEnded, FrontendClose]))
      else (s1, []))"

definition elevenLabs_on_message :: "proxy \<Rightarrow> frame \<Rightarrow> proxy \<times> effect list" where
  "elevenLabs_on_message s fr =
     (if frontendWs s \<noteq> OPEN then (s, [])
      else case fr of
        Binary d \<Rightarrow> (s, [FrontendSendBinary d])
      | Text SyntaxError \<Rightarrow>
          (s, if frontendWs s = OPEN then [FrontendSend processing_error] else [])
      | Text (Value jsonData) \<Rightarrow>
          (case get_prop jsonData ''type'' of
             Inl e \<Rightarrow> (s, if frontendWs s = OPEN then [FrontendSend processing_error] else [])
           | Inr ty \<Rightarrow>
               if ty = Some (JStr ''ping'') then
                 (s, (if elevenLabsWs s = OPEN then [ElevenLabsPong] else [])
                     @ [FrontendSend jsonData])
               else if ty = Some (JStr ''conversation_initiation_metadata'') then
                 (s\<lparr>isElevenLabsReady := True\<rparr>,
                  [FrontendSend elevenlabsReady, FrontendSend jsonData])
               else (s, [FrontendSend jsonData])))"

subsection \<open>The handlers of the downstream socket\<close>

definition frontend_on_message :: "proxy \<Rightarrow> frame \<Rightarrow> proxy \<times> effect list" where
  "frontend_on_message s fr =
     (case fr of
        Binary d \<Rightarrow> (s, [])
      | Text p \<Rightarrow>
          if \<not> isElevenLabsReady s then (s, [])
          else if elevenLabsWs s \<noteq> OPEN then (s, [])
          else case p of
            SyntaxError \<Rightarrow> (s, [])
          | Value textData \<Rightarrow>
              (case get_prop textData ''type'' of
                 Inl e \<Rightarrow> (s, [])
               | Inr ty \<Rightarrow>
                   if ty = Some (JStr ''end_conversation'') then
                     (if elevenLabsWs s = OPEN then
                        (s\<lparr>elevenLabsWs := ws_close (elevenLabsWs s)\<rparr>,
                         [ElevenLabsClose 1000 ''User ended conversation''])
                      else (s, []))
                   else (s, [ElevenLabsSend textData])))"

definition frontend_on_close :: "proxy \<Rightarrow> proxy \<times> effect list" where
  "frontend_on_close s =
     (if \<not> isElevenLabsClosed s \<and> (elevenLabsWs s = OPEN \<or> elevenLabsWs s = CONNECTING) then
        (s\<lparr>elevenLabsWs := ws_close (elevenLabsWs s)\<rparr>,
         [ElevenLabsClose 1000 ''Frontend disconnected''])
      else (s, []))"

definition frontend_on_error :: "proxy \<Rightarrow> proxy \<times> effect list" where
  "frontend_on_error s =
     (if \<not> isElevenLabsClosed s \<and> (elevenLabsWs s = OPEN \<or> elevenLabsWs s = CONNECTING) then
        (s\<lparr>elevenLabsWs := ws_close (elevenLabsWs s)\<rparr>,
         [ElevenLabsClose 1011 ''Frontend error''])
      else (s, []))"

subsection \<open>A session: the events of the two sockets, in the order they fire\<close>

text \<open>
  A socket has changed its \<^verbatim>\<open>readyState\<close> when its event fires: it is \<^verbatim>\<open>OPEN\<close> in the
  open event and \<^verbatim>\<open>CLOSED\<close> in the close event. Before it emits an error event the
  library starts closing the socket, so the socket is \<^verbatim>\<open>CLOSING\<close> (or already \<^verbatim>\<open>CLOSED\<close>)
  when the handler of the error event runs. A session starts with the downstream
  socket open (the server hands it over so) and the upstream socket connecting.
\<close>

datatype event =
    EL_open
  | EL_error string
  | EL_close
  | EL_message frame
  | FE_message frame
  | FE_close
  | FE_error

fun handle :: "proxy \<Rightarrow> event \<Rightarrow> proxy \<times> effect list" where
  "handle s EL_open = elevenLabs_on_open (s\<lparr>elevenLabsWs := OPEN\<rparr>)"
| "handle s (EL_error msg) =
     elevenLabs_on_error (s\<lparr>elevenLabsWs := ws_close (elevenLabsWs s)\<rparr>) msg"
| "handle s EL_close = elevenLabs_on_close (s\<lparr>elevenLabsWs := CLOSED\<rparr>)"
| "handle s (EL_message fr) = elevenLabs_on_message s fr"
| "handle s (FE_message fr) = frontend_on_message s fr"
| "handle s FE_close = frontend_on_close (s\<lparr>frontendWs := CLOSED\<rparr>)"
| "handle s FE_error = frontend_on_error (s\<lparr>frontendWs := ws_close (frontendWs s)\<rparr>)"

fun session :: "proxy \<Rightarrow> event list \<Rightarrow> proxy \<times> effect list" where
  "session s [] = (s, [])"
| "session s (e # es) =
     (let (s1, out1) = handle s e; (s2, out2) = session s1 es in (s2, out1 @ out2))"

definition connection :: proxy where
  "connection = \<lparr>frontendWs = OPEN, elevenLabsWs = CONNECTING,
                 isElevenLabsClosed = False, isElevenLabsReady = False\<rparr>"

subsection \<open>Sessions and envelopes used in the statements\<close>

text \<open>A session after the handshake: both sockets open, the readiness flag set.\<close>

definition ready_session :: proxy where
  "ready_session = \<lparr>frontendWs = OPEN, elevenLabsWs = OPEN,
                    isElevenLabsClosed = False, isElevenLabsReady = True\<rparr>"

definition end_conversation :: json where
  "end_conversation = JObj [(''type'', JStr ''end_conversation'')]"

definition sent_conversationEnded :: "effect list \<Rightarrow> nat" where
  "sent_conversationEnded out = count_list out (FrontendSend conversationEnded)"

fun upstream_send :: "effect \<Rightarrow> bool" where
  "upstream_send (ElevenLabsSend j) = True"
| "upstream_send e = False"

definition is_metadata :: "event \<Rightarrow> bool" where
  "is_metadata e =
     (case e of
        EL_message (Text (Value j)) \<Rightarrow>
          get_prop j ''type'' = Inr (Some (JStr ''conversation_initiation_metadata''))
      | _ \<Rightarrow> False)"

section \<open>The audio pipeline of public/client.js\<close>

subsection \<open>JavaScript numbers\<close>

text \<open>
  A number is \<^verbatim>\<open>NaN\<close>, an infinity or a finite value, which is a real number here; the
  sign of zero is left out. \<open>js_add\<close>, \<open>js_sub\<close>, \<open>js_mul\<close> and \<open>js_div\<close> give the exact
  result of \<^verbatim>\<open>+\<close>, \<^verbatim>\<open>-\<close>, \<^verbatim>\<open>*\<close> and \<^verbatim>\<open>/\<close>, with their values at \<^verbatim>\<open>NaN\<close> and the infinities;
  the operation of the language is the exact result rounded to binary64, which is
  \<open>double\<close> below. \<^verbatim>\<open><\<close>, \<^verbatim>\<open>Math.min\<close>, \<^verbatim>\<open>Math.max\<close>, \<^verbatim>\<open>Math.round\<close> and \<^verbatim>\<open>Math.floor\<close> are exact
  on binary64 numbers.
\<close>

datatype jsnum = NaN | NegInf | PosInf | Fin real




fun js_mul :: "jsnum \<Rightarrow> jsnum \<Rightarrow> jsnum" where
  "js_mul (Fin a) (Fin b) = Fin (a * b)"
| "js_mul NaN y = NaN"
| "js_mul x NaN = NaN"
| "js_mul PosInf PosInf = PosInf"
| "js_mul NegInf NegInf = PosInf"
| "js_mul PosInf NegInf = NegInf"
| "js_mul NegInf PosInf = NegInf"
| "js_mul PosInf (Fin b) = (if b = 0 then NaN else if 0 < b then PosInf else NegInf)"
| "js_mul NegInf (Fin b) = (if b = 0 then NaN else if 0 < b then NegInf else PosInf)"
| "js_mul (Fin a) PosInf = (if a = 0 then NaN else if 0 < a then PosInf else NegInf)"
| "js_mul (Fin a) NegInf = (if a = 0 then NaN else if 0 < a then NegInf else PosInf)"


fun js_lt :: "jsnum \<Rightarrow> jsnum \<Rightarrow> bool" where
  "js_lt (Fin a) (Fin b) = (a < b)"
| "js_lt NaN y = False"
| "js_lt x NaN = False"
| "js_lt x NegInf = False"
| "js_lt PosInf y = False"
| "js_lt NegInf y = True"
| "js_lt x PosInf = True"

fun Math_min :: "jsnum \<Rightarrow> jsnum \<Rightarrow> jsnum" where
  "Math_min (Fin a) (Fin b) = Fin (min a b)"
| "Math_min NaN y = NaN"
| "Math_min x NaN = NaN"
| "Math_min NegInf y = NegInf"
| "Math_min x NegInf = NegInf"
| "Math_min PosInf y = y"
| "Math_min x PosInf = x"

fun Math_max :: "jsnum \<Rightarrow> jsnum \<Rightarrow> jsnum" where
  "Math_max (Fin a) (Fin b) = Fin (max a b)"
| "Math_max NaN y = NaN"
| "Math_max x NaN = NaN"
| "Math_max PosInf y = PosInf"
| "Math_max x PosInf = PosInf"
| "Math_max NegInf y = y"
| "Math_max x NegInf = x"



subsection \<open>Rounding to binary64 and to float32\<close>

text \<open>
  \<open>rne\<close> rounds to the nearest integer, a tie to the even one. \<open>round_to p emin\<close> rounds
  a real number to the nearest number with \<open>p\<close> significant bits and least normal
  exponent \<open>emin\<close> (below \<open>2 ^ emin\<close> the numbers are the multiples of
  \<open>2 ^ (emin - (p - 1))\<close>), a tie to the even significand, with no upper limit on the
  exponent. binary64 has 53 bits, least exponent -1022 (\<open>r64\<close> rounds to it;
  \<open>min_normal\<close> is its least positive normal number, and \<open>binary64_number\<close> says that a
  real number is one of its finite numbers), and
  overflows to an infinity when the rounded magnitude reaches \<open>2 ^ 1024\<close>; float32 has 24 bits, least exponent -126,
  and overflows at \<open>2 ^ 128\<close>. \<open>Math_fround\<close> is what a store into a \<^verbatim>\<open>Float32Array\<close> does to
  a number.
\<close>

definition rne :: "real \<Rightarrow> int" where
  "rne x =
     (let f = \<lfloor>x\<rfloor>; d = x - of_int f
      in if d < 1 / 2 then f else if 1 / 2 < d then f + 1 else if even f then f else f + 1)"

definition round_to :: "nat \<Rightarrow> int \<Rightarrow> real \<Rightarrow> real" where
  "round_to p emin x =
     (if x = 0 then 0
      else let e = max \<lfloor>log 2 \<bar>x\<bar>\<rfloor> emin;
               ulp = 2 powi (e - (int p - 1))
           in of_int (rne (x / ulp)) * ulp)"

definition r64 :: "real \<Rightarrow> real" where
  "r64 x = round_to 53 (- 1022) x"







subsection \<open>Typed arrays\<close>





definition js_trunc :: "real \<Rightarrow> int" where
  "js_trunc a = (if a < 0 then \<lceil>a\<rceil> else \<lfloor>a\<rfloor>)"


fun ToInt16 :: "jsnum \<Rightarrow> int" where
  "ToInt16 (Fin a) =
     (let m = js_trunc a mod 65536 in if 32768 \<le> m then m - 65536 else m)"
| "ToInt16 x = 0"

subsection \<open>resampleAudio\<close>






subsection \<open>The conversion to 16-bit PCM in onaudioprocess\<close>

text \<open>
  The samples come out of a \<^verbatim>\<open>Float32Array\<close>, and the product of a float32 number with
  32768 or 32767 is exact in binary64: the two products are not rounded.
\<close>

definition pcm_sample :: "jsnum \<Rightarrow> int" where
  "pcm_sample x =
     (let clamped = Math_max (Fin (- 1)) (Math_min (Fin 1) x)
      in ToInt16 (if js_lt clamped (Fin 0) then js_mul clamped (Fin 32768)
                  else js_mul clamped (Fin 32767)))"

definition pcmData :: "jsnum list \<Rightarrow> int list" where
  "pcmData processedData = map pcm_sample processedData"

subsection \<open>The playback queue\<close>

text \<open>
  The globals \<^verbatim>\<open>audioQueue\<close> and \<^verbatim>\<open>isAudioPlaying\<close>, and two observers: \<open>awaiting\<close> holds,
  for every call of \<^verbatim>\<open>processAudioQueue\<close> that is suspended at its \<^verbatim>\<open>await\<close>, the buffer it
  handed to \<^verbatim>\<open>playRawPcmAudioQueued\<close>; \<open>played\<close> lists the buffers handed to
  \<^verbatim>\<open>playRawPcmAudioQueued\<close> so far, in the order of the calls.
\<close>

record player =
  audioQueue :: "byte list list"
  isAudioPlaying :: bool
  awaiting :: "byte list list"
  played :: "byte list list"

text \<open>
  The \<^verbatim>\<open>while\<close> loop of \<^verbatim>\<open>processAudioQueue\<close>, from its test to the next \<^verbatim>\<open>await\<close> or to
  the end of the function.
\<close>

function while_audioQueue :: "player \<Rightarrow> player" where
  "while_audioQueue s =
     (case audioQueue s of
        [] \<Rightarrow> s\<lparr>isAudioPlaying := False\<rparr>
      | rawPcmArrayBuffer # rest \<Rightarrow>
          let s1 = s\<lparr>audioQueue := rest\<rparr> in
          if length rawPcmArrayBuffer > 0 then
            s1\<lparr>awaiting := awaiting s1 @ [rawPcmArrayBuffer],
               played := played s1 @ [rawPcmArrayBuffer]\<rparr>
          else while_audioQueue s1)"
  by pat_completeness auto
termination
  by (relation "measure (\<lambda>s. length (audioQueue s))") auto

definition processAudioQueue :: "player \<Rightarrow> player" where
  "processAudioQueue s = while_audioQueue (s\<lparr>isAudioPlaying := True\<rparr>)"

text \<open>
  The case \<^verbatim>\<open>'audio'\<close> of \<^verbatim>\<open>ws.onmessage\<close>. The argument is the decoded payload: \<open>None\<close>
  when \<^verbatim>\<open>audio_base_64\<close> is missing or empty, or when \<^verbatim>\<open>atob\<close> throws.
\<close>

definition onmessage_audio :: "player \<Rightarrow> byte list option \<Rightarrow> player" where
  "onmessage_audio s payload =
     (case payload of
        None \<Rightarrow> s
      | Some rawPcmArrayBuffer \<Rightarrow>
          let s1 = s\<lparr>audioQueue := audioQueue s @ [rawPcmArrayBuffer]\<rparr> in
          if \<not> isAudioPlaying s1 then processAudioQueue s1 else s1)"

text \<open>
  The promise of the \<open>k\<close>-th suspended call settles. Resolved or rejected, the call
  goes on with the next round of its loop.
\<close>

definition settled :: "player \<Rightarrow> nat \<Rightarrow> player" where
  "settled s k =
     (if k < length (awaiting s) then
        while_audioQueue (s\<lparr>awaiting := take k (awaiting s) @ drop (Suc k) (awaiting s)\<rparr>)
      else s)"

datatype player_event = Audio "byte list option" | Settled nat

fun player_step :: "player \<Rightarrow> player_event \<Rightarrow> player" where
  "player_step s (Audio payload) = onmessage_audio s payload"
| "player_step s (Settled k) = settled s k"

definition page_loaded :: player where
  "page_loaded = \<lparr>audioQueue = [], isAudioPlaying = False, awaiting = [], played = []\<rparr>"

text \<open>The buffers pushed onto \<^verbatim>\<open>audioQueue\<close> by a list of events, in order.\<close>

definition enqueued :: "player_event list \<Rightarrow> byte list list" where
  "enqueued evs = concat (map (\<lambda>e. case e of Audio (Some b) \<Rightarrow> [b] | _ \<Rightarrow> []) evs)"

text \<open>The player after a list of events, starting from the loaded page.\<close>

definition player_run :: "player_event list \<Rightarrow> player" where
  "player_run evs = foldl player_step page_loaded evs"

text \<open>The buffers that are played: \<^verbatim>\<open>processAudioQueue\<close> skips a buffer of length 0.\<close>

definition nonempty :: "byte list list \<Rightarrow> byte list list" where
  "nonempty bs = filter (\<lambda>b. length b > 0) bs"

text \<open>
  At most one call of \<^verbatim>\<open>processAudioQueue\<close> is suspended, the flag says whether one is,
  and the flag is down exactly when nothing is queued and nothing is being played.
\<close>

definition one_worker :: "player \<Rightarrow> bool" where
  "one_worker s \<longleftrightarrow>
     length (awaiting s) \<le> 1
     \<and> (isAudioPlaying s \<longleftrightarrow> awaiting s \<noteq> [])
     \<and> (\<not> isAudioPlaying s \<longleftrightarrow> audioQueue s = [] \<and> awaiting s = [])"

section \<open>Properties of the proxy session\<close>

subsection \<open>What the handlers do to the downstream socket\<close>

lemma session_Cons:
  "session s (e # es) =
     (fst (session (fst (handle s e)) es),
      snd (handle s e) @ snd (session (fst (handle s e)) es))"
  by (simp add: case_prod_unfold Let_def)

lemma frontendWs_stays_closed:
  "frontendWs s = CLOSING \<or> frontendWs s = CLOSED \<Longrightarrow>
   frontendWs (fst (handle s e)) = CLOSING \<or> frontendWs (fst (handle s e)) = CLOSED"
  by (cases e)
     (auto simp: elevenLabs_on_open_def elevenLabs_on_error_def elevenLabs_on_close_def
        elevenLabs_on_message_def frontend_on_message_def frontend_on_close_def
        frontend_on_error_def Let_def
        split: frame.splits parsed.splits sum.splits if_splits)

lemma handle_FrontendClose:
  "count_list (snd (handle s e)) FrontendClose =
     (if e = EL_close \<and> frontendWs s = OPEN then 1 else 0)"
  by (cases e; cases "frontendWs s")
     (auto simp: elevenLabs_on_open_def elevenLabs_on_error_def elevenLabs_on_close_def
        elevenLabs_on_message_def frontend_on_message_def frontend_on_close_def
        frontend_on_error_def Let_def
        split: frame.splits parsed.splits sum.splits)

lemma handle_closes_frontend:
  "frontendWs s = OPEN \<Longrightarrow> frontendWs (fst (handle s EL_close)) = CLOSING"
  by (simp add: elevenLabs_on_close_def Let_def)

lemma session_closed_no_FrontendClose:
  "frontendWs s = CLOSING \<or> frontendWs s = CLOSED \<Longrightarrow>
   count_list (snd (session s es)) FrontendClose = 0"
proof (induction es arbitrary: s)
  case Nil
  then show ?case by simp
next
  case (Cons e es)
  have "count_list (snd (handle s e)) FrontendClose = 0"
    using Cons.prems by (auto simp: handle_FrontendClose)
  moreover have "count_list (snd (session (fst (handle s e)) es)) FrontendClose = 0"
    using Cons.IH [OF frontendWs_stays_closed [OF Cons.prems]] .
  ultimately show ?case
    by (simp only: session_Cons snd_conv count_list_append)
qed

lemma session_FrontendClose_once:
  "count_list (snd (session s es)) FrontendClose \<le> 1"
proof (induction es arbitrary: s)
  case Nil
  then show ?case by simp
next
  case (Cons e es)
  show ?case
  proof (cases "e = EL_close \<and> frontendWs s = OPEN")
    case True
    then have "frontendWs (fst (handle s e)) = CLOSING"
      using handle_closes_frontend by simp
    then have "count_list (snd (session (fst (handle s e)) es)) FrontendClose = 0"
      using session_closed_no_FrontendClose by blast
    then show ?thesis
      by (simp only: session_Cons snd_conv count_list_append handle_FrontendClose) simp
  next
    case False
    then have "count_list (snd (handle s e)) FrontendClose = 0"
      by (simp add: handle_FrontendClose)
    then show ?thesis
      using Cons.IH [of "fst (handle s e)"]
      by (simp only: session_Cons snd_conv count_list_append)
  qed
qed

text \<open>
  C1, as stated: every session sends exactly one \<^verbatim>\<open>conversationEnded\<close> downstream, also
  when the downstream socket disconnected first. It fails there: the upstream socket
  opens, the browser disconnects, the proxy closes the upstream socket, and the close
  event of the upstream socket finds the downstream socket \<^verbatim>\<open>CLOSED\<close> and sends nothing.
\<close>

theorem downstream_disconnect_no_conversationEnded:
  "sent_conversationEnded (snd (session connection [EL_open, FE_close, EL_close])) = 0
   \<and> snd (session connection [EL_open, FE_close, EL_close])
       = [ElevenLabsClose 1000 ''Frontend disconnected'']"
  by (simp add: sent_conversationEnded_def connection_def elevenLabs_on_open_def
      frontend_on_close_def elevenLabs_on_close_def conversationEnded_def Let_def)

text \<open>
  C1, amended: the close event of the upstream socket sends exactly one
  \<^verbatim>\<open>conversationEnded\<close> downstream, followed by the close of the downstream socket, when
  the downstream socket is \<^verbatim>\<open>OPEN\<close>, and sends nothing when the downstream socket is
  already \<^verbatim>\<open>CLOSING\<close> or \<^verbatim>\<open>CLOSED\<close>. It is not sent twice: a second close event sends no
  further one, and in any session the proxy closes the downstream socket at most once.
\<close>

theorem conversationEnded_on_upstream_close:
  "(frontendWs s = OPEN \<longrightarrow>
      snd (elevenLabs_on_close s) = [FrontendSend conversationEnded, FrontendClose]
      \<and> frontendWs (fst (elevenLabs_on_close s)) = CLOSING)
   \<and> (frontendWs s = CLOSING \<or> frontendWs s = CLOSED \<longrightarrow> snd (elevenLabs_on_close s) = [])
   \<and> sent_conversationEnded
        (snd (elevenLabs_on_close s) @ snd (elevenLabs_on_close (fst (elevenLabs_on_close s)))) \<le> 1
   \<and> count_list (snd (session connection es)) FrontendClose \<le> 1"
  using session_FrontendClose_once [of connection es]
  by (cases "frontendWs s")
     (simp_all add: elevenLabs_on_close_def Let_def sent_conversationEnded_def conversationEnded_def)

theorem conversationEnded_on_upstream_close_witness:
  "frontendWs ready_session = OPEN
   \<and> snd (elevenLabs_on_close ready_session) = [FrontendSend conversationEnded, FrontendClose]
   \<and> frontendWs (ready_session\<lparr>frontendWs := CLOSED\<rparr>) = CLOSED
   \<and> snd (elevenLabs_on_close (ready_session\<lparr>frontendWs := CLOSED\<rparr>)) = []"
  using conversationEnded_on_upstream_close [of ready_session "[]"]
    conversationEnded_on_upstream_close [of "ready_session\<lparr>frontendWs := CLOSED\<rparr>" "[]"]
  by (simp add: ready_session_def)

subsection \<open>Messages from upstream\<close>

text \<open>
  C2: a text message from upstream of type \<^verbatim>\<open>ping\<close> is answered with a pong and nothing
  is sent downstream for it. The code sends the pong and then falls through to the
  \<^verbatim>\<open>frontendWs.send\<close> that follows the \<^verbatim>\<open>if\<close>: the ping envelope reaches the browser.
\<close>

theorem ping_is_forwarded_downstream:
  "elevenLabs_on_message ready_session (Text (Value (JObj [(''type'', JStr ''ping'')])))
   = (ready_session, [ElevenLabsPong, FrontendSend (JObj [(''type'', JStr ''ping'')])])"
  by (simp add: elevenLabs_on_message_def ready_session_def)

text \<open>
  Every other envelope from upstream is sent downstream as it was parsed, when the
  downstream socket is open; after a \<^verbatim>\<open>conversation_initiation_metadata\<close> it follows the
  \<^verbatim>\<open>elevenlabsReady\<close> that the proxy writes itself.
\<close>

lemma other_envelopes_forwarded:
  assumes "frontendWs s = OPEN" and "get_prop j ''type'' = Inr ty"
    and "ty \<noteq> Some (JStr ''ping'')"
  shows "snd (elevenLabs_on_message s (Text (Value j))) =
           (if ty = Some (JStr ''conversation_initiation_metadata'')
            then [FrontendSend elevenlabsReady, FrontendSend j] else [FrontendSend j])"
  using assms by (simp add: elevenLabs_on_message_def)

text \<open>
  C5, as stated: a binary frame is forwarded in both directions. A binary frame from the
  browser is dropped, also in a session that is ready with both sockets open.
\<close>

theorem downstream_binary_not_forwarded:
  "frontend_on_message ready_session (Binary [1, 2, 3]) = (ready_session, [])"
  by (simp add: frontend_on_message_def)

text \<open>
  C5, amended: a binary frame from upstream is sent downstream as the same bytes, as one
  binary frame, when the downstream socket is \<^verbatim>\<open>OPEN\<close>, and is dropped otherwise; a binary
  frame from downstream is always dropped and nothing is sent upstream for it.
\<close>

theorem binary_frames:
  "(frontendWs s = OPEN \<longrightarrow> elevenLabs_on_message s (Binary d) = (s, [FrontendSendBinary d]))
   \<and> (frontendWs s \<noteq> OPEN \<longrightarrow> elevenLabs_on_message s (Binary d) = (s, []))
   \<and> frontend_on_message s (Binary d) = (s, [])"
  by (simp add: elevenLabs_on_message_def frontend_on_message_def)

theorem binary_frames_witness:
  "frontendWs connection = OPEN
   \<and> elevenLabs_on_message connection (Binary [1, 2, 3])
       = (connection, [FrontendSendBinary [1, 2, 3]])
   \<and> frontendWs (connection\<lparr>frontendWs := CLOSED\<rparr>) \<noteq> OPEN
   \<and> elevenLabs_on_message (connection\<lparr>frontendWs := CLOSED\<rparr>) (Binary [1, 2, 3])
       = (connection\<lparr>frontendWs := CLOSED\<rparr>, [])"
  using binary_frames [of connection "[1, 2, 3]"]
    binary_frames [of "connection\<lparr>frontendWs := CLOSED\<rparr>" "[1, 2, 3]"]
  by (simp add: connection_def)

subsection \<open>Messages from downstream\<close>

text \<open>
  C3: while the readiness flag is false, a message from downstream sends nothing
  upstream and is not kept: the handler returns the state it was given and no effect.
\<close>

theorem not_ready_drops_downstream_message:
  "\<not> isElevenLabsReady s \<Longrightarrow> frontend_on_message s fr = (s, [])"
  by (simp add: frontend_on_message_def split: frame.splits)

theorem not_ready_drops_downstream_message_witness:
  "\<not> isElevenLabsReady (connection\<lparr>elevenLabsWs := OPEN\<rparr>)
   \<and> frontend_on_message (connection\<lparr>elevenLabsWs := OPEN\<rparr>)
        (Text (Value (JObj [(''type'', JStr ''user_audio_chunk''),
                            (''user_audio_chunk'', JStr ''AAAA'')])))
      = (connection\<lparr>elevenLabsWs := OPEN\<rparr>, [])"
proof -
  have h: "\<not> isElevenLabsReady (connection\<lparr>elevenLabsWs := OPEN\<rparr>)"
    by (simp add: connection_def)
  show ?thesis
    using h not_ready_drops_downstream_message [OF h] by simp
qed

text \<open>
  The same over a whole session: as long as upstream has sent no
  \<^verbatim>\<open>conversation_initiation_metadata\<close>, nothing has been sent upstream.
\<close>

lemma handle_not_ready:
  "\<not> isElevenLabsReady s \<Longrightarrow> \<not> is_metadata e \<Longrightarrow>
   \<not> isElevenLabsReady (fst (handle s e)) \<and> \<not> list_ex upstream_send (snd (handle s e))"
  by (cases e)
     (auto simp: is_metadata_def elevenLabs_on_open_def elevenLabs_on_error_def
        elevenLabs_on_close_def elevenLabs_on_message_def frontend_on_message_def
        frontend_on_close_def frontend_on_error_def Let_def
        split: frame.splits parsed.splits sum.splits if_splits)

lemma nothing_upstream_before_metadata:
  "\<not> isElevenLabsReady s \<Longrightarrow> \<not> list_ex is_metadata es \<Longrightarrow>
   \<not> list_ex upstream_send (snd (session s es))"
proof (induction es arbitrary: s)
  case Nil
  then show ?case by simp
next
  case (Cons e es)
  from Cons.prems have e: "\<not> is_metadata e" and es: "\<not> list_ex is_metadata es"
    by simp_all
  note h = handle_not_ready [OF Cons.prems(1) e]
  from h Cons.IH [of "fst (handle s e)"] es
  show ?case
    by (simp only: session_Cons snd_conv list_ex_append) simp
qed

text \<open>
  C4, as stated: every \<^verbatim>\<open>end_conversation\<close> from downstream closes the upstream socket with
  code 1000 and reason "user ended conversation". Before the readiness flag is set the
  message is dropped and the upstream socket, although open, is not closed.
\<close>

theorem end_conversation_before_ready_no_close:
  "session connection [EL_open, FE_message (Text (Value end_conversation))]
     = (connection\<lparr>elevenLabsWs := OPEN\<rparr>, [])"
  by (simp add: frontend_on_message_def elevenLabs_on_open_def connection_def)

text \<open>
  C4, amended: an \<^verbatim>\<open>end_conversation\<close> from downstream is never sent upstream. When the
  readiness flag is set and the upstream socket is \<^verbatim>\<open>OPEN\<close>, the proxy closes the upstream
  socket with code 1000 and reason "User ended conversation"; otherwise the message is
  dropped and nothing happens.
\<close>

theorem end_conversation_consumed:
  assumes "get_prop j ''type'' = Inr (Some (JStr ''end_conversation''))"
  shows "\<not> list_ex upstream_send (snd (frontend_on_message s (Text (Value j))))
    \<and> (isElevenLabsReady s \<and> elevenLabsWs s = OPEN \<longrightarrow>
          frontend_on_message s (Text (Value j)) =
            (s\<lparr>elevenLabsWs := CLOSING\<rparr>, [ElevenLabsClose 1000 ''User ended conversation'']))
    \<and> (\<not> (isElevenLabsReady s \<and> elevenLabsWs s = OPEN) \<longrightarrow>
          frontend_on_message s (Text (Value j)) = (s, []))"
  using assms by (simp add: frontend_on_message_def)

theorem end_conversation_consumed_witness:
  "get_prop end_conversation ''type'' = Inr (Some (JStr ''end_conversation''))
   \<and> isElevenLabsReady ready_session \<and> elevenLabsWs ready_session = OPEN
   \<and> frontend_on_message ready_session (Text (Value end_conversation)) =
       (ready_session\<lparr>elevenLabsWs := CLOSING\<rparr>,
        [ElevenLabsClose 1000 ''User ended conversation''])
   \<and> \<not> (isElevenLabsReady connection \<and> elevenLabsWs connection = OPEN)
   \<and> frontend_on_message connection (Text (Value end_conversation)) = (connection, [])"
proof -
  have h: "get_prop end_conversation ''type'' = Inr (Some (JStr ''end_conversation''))"
    by (simp add: end_conversation_def)
  show ?thesis
    using h end_conversation_consumed [OF h, of ready_session]
      end_conversation_consumed [OF h, of connection]
    by (simp add: ready_session_def connection_def)
qed

text \<open>
  C10: while the readiness flag is false an \<^verbatim>\<open>end_conversation\<close> from downstream is
  dropped like any other message and the upstream socket is not closed; whenever the
  handler of downstream messages closes the upstream socket, the readiness flag is set.
\<close>

theorem end_conversation_needs_ready:
  "(get_prop j ''type'' = Inr (Some (JStr ''end_conversation'')) \<and> \<not> isElevenLabsReady s \<longrightarrow>
      frontend_on_message s (Text (Value j)) = (s, []))
   \<and> (ElevenLabsClose code reason \<in> set (snd (frontend_on_message s fr)) \<longrightarrow>
        isElevenLabsReady s)"
  by (auto simp: frontend_on_message_def split: frame.splits parsed.splits sum.splits if_splits)

theorem end_conversation_needs_ready_witness:
  "get_prop end_conversation ''type'' = Inr (Some (JStr ''end_conversation''))
   \<and> \<not> isElevenLabsReady (connection\<lparr>elevenLabsWs := OPEN\<rparr>)
   \<and> frontend_on_message (connection\<lparr>elevenLabsWs := OPEN\<rparr>) (Text (Value end_conversation))
        = (connection\<lparr>elevenLabsWs := OPEN\<rparr>, [])
   \<and> ElevenLabsClose 1000 ''User ended conversation''
        \<in> set (snd (frontend_on_message ready_session (Text (Value end_conversation))))
   \<and> isElevenLabsReady ready_session"
proof -
  have h: "get_prop end_conversation ''type'' = Inr (Some (JStr ''end_conversation''))"
    by (simp add: end_conversation_def)
  have n: "\<not> isElevenLabsReady (connection\<lparr>elevenLabsWs := OPEN\<rparr>)"
    by (simp add: connection_def)
  have c: "ElevenLabsClose 1000 ''User ended conversation''
        \<in> set (snd (frontend_on_message ready_session (Text (Value end_conversation))))"
    by (simp add: frontend_on_message_def ready_session_def end_conversation_def)
  show ?thesis
    using h n c
      end_conversation_needs_ready [of end_conversation "connection\<lparr>elevenLabsWs := OPEN\<rparr>"
        1000 "''User ended conversation''" "Text (Value end_conversation)"]
      end_conversation_needs_ready [of end_conversation ready_session
        1000 "''User ended conversation''" "Text (Value end_conversation)"]
    by simp
qed

section \<open>Properties of the audio pipeline\<close>

subsection \<open>The conversion to 16-bit PCM\<close>


lemma ToInt16_in_range:
  assumes "- 32768 \<le> n" "n \<le> 32767"
  shows "(let m = n mod 65536 in if 32768 \<le> m then m - 65536 else m) = (n::int)"
proof (cases "n < 0")
  case True
  have "(n + 65536) mod 65536 = n + 65536"
    using assms True by (intro mod_pos_pos_trivial) simp_all
  moreover have "(n + 65536) mod 65536 = n mod 65536"
    by (rule mod_add_self2)
  ultimately have "n mod 65536 = n + 65536" by simp
  then show ?thesis using assms by simp
next
  case False
  then have "n mod 65536 = n" using assms by simp
  then show ?thesis using assms by simp
qed

lemma js_trunc_bounds:
  assumes "- 32768 \<le> a" "a \<le> 32767"
  shows "- 32768 \<le> js_trunc a \<and> js_trunc a \<le> 32767"
proof (cases "a < 0")
  case True
  have "\<lceil>a\<rceil> \<le> 0" using True by (simp add: ceiling_le_iff)
  moreover have "- 32768 \<le> \<lceil>a\<rceil>" using assms(1) by (simp add: le_ceiling_iff)
  ultimately show ?thesis using True by (simp add: js_trunc_def)
next
  case False
  have "0 \<le> \<lfloor>a\<rfloor>" using False by simp
  moreover have "\<lfloor>a\<rfloor> \<le> 32767" using assms(2) by (simp add: floor_le_iff)
  ultimately show ?thesis using False by (simp add: js_trunc_def)
qed

lemma ToInt16_Fin:
  assumes "- 32768 \<le> p" "p \<le> 32767"
  shows "ToInt16 (Fin p) = js_trunc p"
  using ToInt16_in_range [of "js_trunc p"] js_trunc_bounds [OF assms]
  by (simp only: ToInt16.simps)

lemma scaled_bounds:
  assumes "- 1 \<le> c" "c \<le> (1::real)"
  shows "- 32768 \<le> (if c < 0 then c * 32768 else c * 32767)"
    and "(if c < 0 then c * 32768 else c * 32767) \<le> 32767"
  using assms by simp_all

lemma pcm_sample_Fin:
  "pcm_sample (Fin v) =
     js_trunc (if max (- 1) (min 1 v) < 0 then max (- 1) (min 1 v) * 32768
               else max (- 1) (min 1 v) * 32767)"
proof -
  define c where "c = max (- 1) (min 1 v)"
  have c: "- 1 \<le> c" "c \<le> 1" by (simp_all add: c_def)
  have "pcm_sample (Fin v) = ToInt16 (Fin (if c < 0 then c * 32768 else c * 32767))"
    unfolding pcm_sample_def Let_def Math_min.simps Math_max.simps c_def [symmetric] js_lt.simps
    by (cases "c < 0") (simp_all only: if_True if_False js_mul.simps)
  also have "\<dots> = js_trunc (if c < 0 then c * 32768 else c * 32767)"
    by (rule ToInt16_Fin [OF scaled_bounds [OF c]])
  finally show ?thesis unfolding c_def .
qed

lemma pcm_sample_bounds: "- 32768 \<le> pcm_sample x \<and> pcm_sample x \<le> 32767"
proof (cases x)
  case (Fin v)
  define c where "c = max (- 1) (min 1 v)"
  have c: "- 1 \<le> c" "c \<le> 1" by (simp_all add: c_def)
  show ?thesis
    unfolding Fin pcm_sample_Fin c_def [symmetric]
    by (rule js_trunc_bounds [OF scaled_bounds [OF c]])
qed (simp_all add: pcm_sample_def js_trunc_def)

text \<open>
  C7: the conversion clamps the sample to \<open>[-1, 1]\<close>, scales a negative value by 32768
  and any other by 32767 and truncates; the stored value lies in \<open>[-32768, 32767]\<close> for
  every sample (\<^verbatim>\<open>NaN\<close> and the infinities among them), and 1.0, -1.0 and 0.0 give 32767,
  -32768 and 0.
\<close>

theorem pcm_conversion:
  "- 32768 \<le> pcm_sample x \<and> pcm_sample x \<le> 32767
   \<and> pcm_sample (Fin v) =
       js_trunc (if max (- 1) (min 1 v) < 0 then max (- 1) (min 1 v) * 32768
                 else max (- 1) (min 1 v) * 32767)
   \<and> pcm_sample (Fin 1) = 32767 \<and> pcm_sample (Fin (- 1)) = - 32768 \<and> pcm_sample (Fin 0) = 0"
proof -
  have "pcm_sample (Fin 1) = 32767" by (simp add: pcm_sample_Fin js_trunc_def)
  moreover have "pcm_sample (Fin (- 1)) = - 32768" by (simp add: pcm_sample_Fin js_trunc_def)
  moreover have "pcm_sample (Fin 0) = 0" by (simp add: pcm_sample_Fin js_trunc_def)
  ultimately show ?thesis
    using pcm_sample_bounds [of x] pcm_sample_Fin [of v] by simp
qed

subsection \<open>Rounding\<close>







lemma two_powi_powr: "(2::real) powi k = 2 powr of_int k"
  by (simp add: powr_real_of_int')


lemma two_powi_less: "j < k \<Longrightarrow> (2::real) powi j < 2 powi k"
  by (simp add: two_powi_powr)




lemma round_to_0 [simp]: "round_to p emin 0 = 0"
  by (simp add: round_to_def)







lemma r64_0 [simp]: "r64 0 = 0"
  by (simp add: r64_def)
















subsection \<open>resampleAudio\<close>





































subsection \<open>The playback queue\<close>

declare while_audioQueue.simps [simp del]

lemma nonempty_append [simp]: "nonempty (xs @ ys) = nonempty xs @ nonempty ys"
  by (simp add: nonempty_def)

lemma nonempty_Nil: "nonempty [] = []"
  by (simp add: nonempty_def)

lemma nonempty_Cons:
  "nonempty (b # bs) = (if length b > 0 then b # nonempty bs else nonempty bs)"
  by (simp add: nonempty_def)

lemma while_audioQueue_order:
  "played (while_audioQueue s) @ nonempty (audioQueue (while_audioQueue s))
     = played s @ nonempty (audioQueue s)"
proof (induction s rule: while_audioQueue.induct)
  case (1 s)
  show ?case
  proof (cases "audioQueue s")
    case Nil
    then show ?thesis by (subst (1 2) while_audioQueue.simps) simp
  next
    case (Cons b rest)
    show ?thesis
    proof (cases "length b > 0")
      case True
      then show ?thesis
        using Cons by (subst (1 2) while_audioQueue.simps) (simp add: Let_def nonempty_Cons)
    next
      case False
      have "while_audioQueue s = while_audioQueue (s\<lparr>audioQueue := rest\<rparr>)"
        using Cons False by (subst while_audioQueue.simps) (simp add: Let_def)
      then show ?thesis
        using "1.IH" [OF Cons refl] False Cons by (simp add: nonempty_Cons)
    qed
  qed
qed

lemma while_audioQueue_worker:
  "awaiting s = [] \<Longrightarrow> isAudioPlaying s \<Longrightarrow> one_worker (while_audioQueue s)"
proof (induction s rule: while_audioQueue.induct)
  case (1 s)
  show ?case
  proof (cases "audioQueue s")
    case Nil
    then show ?thesis
      using "1.prems" by (subst while_audioQueue.simps) (simp add: one_worker_def)
  next
    case (Cons b rest)
    show ?thesis
    proof (cases "length b > 0")
      case True
      then show ?thesis
        using Cons "1.prems"
        by (subst while_audioQueue.simps) (simp add: Let_def one_worker_def)
    next
      case False
      have "while_audioQueue s = while_audioQueue (s\<lparr>audioQueue := rest\<rparr>)"
        using Cons False by (subst while_audioQueue.simps) (simp add: Let_def)
      then show ?thesis
        using "1.IH" [OF Cons refl] False "1.prems" by simp
    qed
  qed
qed

lemma onmessage_audio_order:
  "played (onmessage_audio s (Some b)) @ nonempty (audioQueue (onmessage_audio s (Some b)))
     = played s @ nonempty (audioQueue s) @ nonempty [b]"
  by (simp add: onmessage_audio_def processAudioQueue_def Let_def while_audioQueue_order)

lemma settled_order:
  "played (settled s k) @ nonempty (audioQueue (settled s k))
     = played s @ nonempty (audioQueue s)"
  by (simp add: settled_def while_audioQueue_order)

lemma onmessage_audio_worker:
  "one_worker s \<Longrightarrow> one_worker (onmessage_audio s payload)"
proof (cases payload)
  case None
  assume "one_worker s"
  then show ?thesis using None by (simp add: onmessage_audio_def)
next
  case (Some b)
  assume w: "one_worker s"
  show ?thesis
  proof (cases "isAudioPlaying s")
    case True
    then show ?thesis
      using w Some by (simp add: onmessage_audio_def Let_def one_worker_def)
  next
    case False
    then have "awaiting s = []" using w by (simp add: one_worker_def)
    then have "one_worker (while_audioQueue (s\<lparr>audioQueue := audioQueue s @ [b], isAudioPlaying := True\<rparr>))"
      by (intro while_audioQueue_worker) simp_all
    then show ?thesis
      using False Some by (simp add: onmessage_audio_def Let_def processAudioQueue_def)
  qed
qed

lemma settled_worker:
  "one_worker s \<Longrightarrow> one_worker (settled s k)"
proof (cases "k < length (awaiting s)")
  case False
  assume "one_worker s"
  then show ?thesis using False by (simp add: settled_def)
next
  case True
  assume w: "one_worker s"
  then have k: "k = 0" and l: "length (awaiting s) = 1" and p: "isAudioPlaying s"
    using True by (auto simp: one_worker_def)
  have "one_worker (while_audioQueue (s\<lparr>awaiting := take k (awaiting s) @ drop (Suc k) (awaiting s)\<rparr>))"
    using k l p by (intro while_audioQueue_worker) simp_all
  then show ?thesis using True by (simp add: settled_def)
qed

lemma player_step_worker: "one_worker s \<Longrightarrow> one_worker (player_step s e)"
  by (cases e) (simp_all add: onmessage_audio_worker settled_worker)

lemma player_step_order:
  "played (player_step s e) @ nonempty (audioQueue (player_step s e))
     = played s @ nonempty (audioQueue s) @ nonempty (enqueued [e])"
proof (cases e)
  case (Audio payload)
  show ?thesis
  proof (cases payload)
    case None
    then have "enqueued [e] = []" and "player_step s e = s"
      using Audio by (simp_all add: enqueued_def onmessage_audio_def)
    then show ?thesis by (simp add: nonempty_Nil)
  next
    case (Some b)
    then have "enqueued [e] = [b]" and "player_step s e = onmessage_audio s (Some b)"
      using Audio by (simp_all add: enqueued_def)
    then show ?thesis by (simp only: onmessage_audio_order)
  qed
next
  case (Settled k)
  then have "enqueued [e] = []" and "player_step s e = settled s k"
    by (simp_all add: enqueued_def)
  then show ?thesis by (simp add: settled_order nonempty_Nil)
qed

lemma enqueued_append [simp]: "enqueued (xs @ ys) = enqueued xs @ enqueued ys"
  by (simp add: enqueued_def)

lemma player_run_snoc: "player_run (evs @ [e]) = player_step (player_run evs) e"
  by (simp add: player_run_def)

lemma player_run_worker: "one_worker (player_run evs)"
proof (induction evs rule: rev_induct)
  case Nil
  then show ?case by (simp add: player_run_def page_loaded_def one_worker_def)
next
  case (snoc e evs)
  then show ?case by (simp only: player_run_snoc player_step_worker)
qed

lemma player_run_order:
  "played (player_run evs) @ nonempty (audioQueue (player_run evs)) = nonempty (enqueued evs)"
proof (induction evs rule: rev_induct)
  case Nil
  then show ?case by (simp add: player_run_def page_loaded_def enqueued_def nonempty_def)
next
  case (snoc e evs)
  have "played (player_run (evs @ [e])) @ nonempty (audioQueue (player_run (evs @ [e])))
     = played (player_run evs) @ nonempty (audioQueue (player_run evs)) @ nonempty (enqueued [e])"
    by (simp only: player_run_snoc player_step_order)
  then show ?case using snoc.IH by simp
qed

text \<open>
  One round of the loop, seen from outside: it hands the first queued buffer of positive
  length to the player, if there is one, and lowers the flag otherwise.
\<close>

lemma while_audioQueue_played:
  "played (while_audioQueue s) = played s @ take 1 (nonempty (audioQueue s))"
proof (induction s rule: while_audioQueue.induct)
  case (1 s)
  show ?case
  proof (cases "audioQueue s")
    case Nil
    then show ?thesis by (subst while_audioQueue.simps) (simp add: nonempty_Nil)
  next
    case (Cons b rest)
    show ?thesis
    proof (cases "length b > 0")
      case True
      then show ?thesis
        using Cons by (subst while_audioQueue.simps) (simp add: Let_def nonempty_Cons)
    next
      case False
      have "while_audioQueue s = while_audioQueue (s\<lparr>audioQueue := rest\<rparr>)"
        using Cons False by (subst while_audioQueue.simps) (simp add: Let_def)
      then show ?thesis
        using "1.IH" [OF Cons refl] False Cons by (simp add: nonempty_Cons)
    qed
  qed
qed

lemma while_audioQueue_awaiting:
  "awaiting (while_audioQueue s) = awaiting s @ take 1 (nonempty (audioQueue s))"
proof (induction s rule: while_audioQueue.induct)
  case (1 s)
  show ?case
  proof (cases "audioQueue s")
    case Nil
    then show ?thesis by (subst while_audioQueue.simps) (simp add: nonempty_Nil)
  next
    case (Cons b rest)
    show ?thesis
    proof (cases "length b > 0")
      case True
      then show ?thesis
        using Cons by (subst while_audioQueue.simps) (simp add: Let_def nonempty_Cons)
    next
      case False
      have "while_audioQueue s = while_audioQueue (s\<lparr>audioQueue := rest\<rparr>)"
        using Cons False by (subst while_audioQueue.simps) (simp add: Let_def)
      then show ?thesis
        using "1.IH" [OF Cons refl] False Cons by (simp add: nonempty_Cons)
    qed
  qed
qed

lemma while_audioQueue_playing:
  "isAudioPlaying (while_audioQueue s) \<longleftrightarrow> isAudioPlaying s \<and> nonempty (audioQueue s) \<noteq> []"
proof (induction s rule: while_audioQueue.induct)
  case (1 s)
  show ?case
  proof (cases "audioQueue s")
    case Nil
    then show ?thesis by (subst while_audioQueue.simps) (simp add: nonempty_Nil)
  next
    case (Cons b rest)
    show ?thesis
    proof (cases "length b > 0")
      case True
      then show ?thesis
        using Cons by (subst while_audioQueue.simps) (simp add: Let_def nonempty_Cons)
    next
      case False
      have "while_audioQueue s = while_audioQueue (s\<lparr>audioQueue := rest\<rparr>)"
        using Cons False by (subst while_audioQueue.simps) (simp add: Let_def)
      then show ?thesis
        using "1.IH" [OF Cons refl] False Cons by (simp add: nonempty_Cons)
    qed
  qed
qed

lemma enqueued_replicate_Settled [simp]: "enqueued (replicate k (Settled j)) = []"
  by (induction k) (simp_all add: enqueued_def)

lemma player_run_completions:
  "played (player_run (evs @ replicate k (Settled 0)))
     = take (length (played (player_run evs)) + k) (nonempty (enqueued evs))
   \<and> (isAudioPlaying (player_run (evs @ replicate k (Settled 0))) \<longleftrightarrow>
        isAudioPlaying (player_run evs)
        \<and> length (played (player_run evs)) + k \<le> length (nonempty (enqueued evs)))"
proof (induction k)
  case 0
  have "nonempty (enqueued evs) = played (player_run evs) @ nonempty (audioQueue (player_run evs))"
    by (simp only: player_run_order)
  then show ?case by simp
next
  case (Suc k)
  define E where "E = nonempty (enqueued evs)"
  define P where "P = length (played (player_run evs))"
  define t where "t = player_run (evs @ replicate k (Settled 0))"
  have "evs @ replicate (Suc k) (Settled 0) = (evs @ replicate k (Settled 0)) @ [Settled 0]"
    by (simp add: replicate_append_same)
  then have run: "player_run (evs @ replicate (Suc k) (Settled 0)) = settled t 0"
    unfolding t_def by (simp only: player_run_snoc player_step.simps)
  have worker: "one_worker t" unfolding t_def by (rule player_run_worker)
  have order: "played t @ nonempty (audioQueue t) = E"
    unfolding t_def E_def using player_run_order [of "evs @ replicate k (Settled 0)"] by simp
  have IH1: "played t = take (P + k) E"
    and IH2: "isAudioPlaying t \<longleftrightarrow> isAudioPlaying (player_run evs) \<and> P + k \<le> length E"
    using Suc.IH unfolding t_def E_def P_def by simp_all
  show ?case
  proof (cases "isAudioPlaying t")
    case False
    then have idle: "awaiting t = []" "audioQueue t = []"
      using worker by (simp_all add: one_worker_def)
    then have same: "settled t 0 = t" by (simp add: settled_def)
    from order idle have "played t = E" by (simp add: nonempty_Nil)
    with IH1 have "take (P + k) E = E" by simp
    then have "length E \<le> P + k"
      by (metis length_take min.cobounded2 min_def nat_le_linear)
    then have "take (P + Suc k) E = E" by simp
    moreover have "\<not> (isAudioPlaying (player_run evs) \<and> P + Suc k \<le> length E)"
      using False IH2 by auto
    ultimately show ?thesis
      unfolding run same E_def [symmetric] P_def [symmetric]
      using False \<open>played t = E\<close> by simp
  next
    case True
    then have le: "P + k \<le> length E" and p0: "isAudioPlaying (player_run evs)"
      using IH2 by simp_all
    from True worker obtain a where a: "awaiting t = [a]"
      by (cases "awaiting t") (auto simp: one_worker_def)
    have st: "settled t 0 = while_audioQueue (t\<lparr>awaiting := []\<rparr>)"
      using a by (simp add: settled_def)
    have rest: "nonempty (audioQueue t) = drop (P + k) E"
      using order IH1 le by (metis append_eq_conv_conj length_take min.absorb2)
    have "played (settled t 0) = take (P + k) E @ take 1 (drop (P + k) E)"
      unfolding st while_audioQueue_played using IH1 rest by simp
    also have "\<dots> = take ((P + k) + 1) E"
      by (rule take_add [symmetric])
    also have "\<dots> = take (P + Suc k) E"
      by simp
    finally have played: "played (settled t 0) = take (P + Suc k) E" .
    have "isAudioPlaying (settled t 0) \<longleftrightarrow> drop (P + k) E \<noteq> []"
      unfolding st while_audioQueue_playing using True rest by simp
    also have "\<dots> \<longleftrightarrow> P + Suc k \<le> length E" by auto
    finally have playing: "isAudioPlaying (settled t 0) \<longleftrightarrow> P + Suc k \<le> length E" .
    show ?thesis
      unfolding run E_def [symmetric] P_def [symmetric]
      using played playing p0 by simp
  qed
qed

text \<open>Enqueues alone start the worker once, on the first buffer of positive length.\<close>

lemma player_run_enqueues:
  "awaiting (player_run (map (\<lambda>b. Audio (Some b)) bs)) = take 1 (nonempty bs)
   \<and> played (player_run (map (\<lambda>b. Audio (Some b)) bs)) = take 1 (nonempty bs)"
proof (induction bs rule: rev_induct)
  case Nil
  then show ?case by (simp add: player_run_def page_loaded_def nonempty_Nil)
next
  case (snoc b bs)
  define s where "s = player_run (map (\<lambda>b. Audio (Some b)) bs)"
  have run: "player_run (map (\<lambda>b. Audio (Some b)) (bs @ [b])) = onmessage_audio s (Some b)"
    unfolding s_def by (simp add: player_run_snoc)
  have worker: "one_worker s" unfolding s_def by (rule player_run_worker)
  have IH: "awaiting s = take 1 (nonempty bs)" "played s = take 1 (nonempty bs)"
    using snoc.IH unfolding s_def by simp_all
  show ?case
  proof (cases "isAudioPlaying s")
    case True
    then have "nonempty bs \<noteq> []"
      using worker IH(1) by (auto simp: one_worker_def)
    then have "take 1 (nonempty (bs @ [b])) = take 1 (nonempty bs)"
      by (cases "nonempty bs") simp_all
    then show ?thesis
      unfolding run using True IH by (simp add: onmessage_audio_def Let_def)
  next
    case False
    then have idle: "awaiting s = []" "audioQueue s = []"
      using worker by (simp_all add: one_worker_def)
    with IH(1) have none: "nonempty bs = []" by (cases "nonempty bs") simp_all
    have "onmessage_audio s (Some b) = while_audioQueue (s\<lparr>audioQueue := [b], isAudioPlaying := True\<rparr>)"
      using False idle by (simp add: onmessage_audio_def Let_def processAudioQueue_def)
    then show ?thesis
      unfolding run using idle IH(2) none
      by (simp add: while_audioQueue_played while_audioQueue_awaiting)
  qed
qed

lemma enqueued_map_Audio [simp]: "enqueued (map (\<lambda>b. Audio (Some b)) bs) = bs"
  by (induction bs) (simp_all add: enqueued_def)

lemma player_run_enqueues_playing:
  "isAudioPlaying (player_run (map (\<lambda>b. Audio (Some b)) bs)) \<longleftrightarrow> nonempty bs \<noteq> []"
  using player_run_worker [of "map (\<lambda>b. Audio (Some b)) bs"] player_run_enqueues [of bs]
  by (cases "nonempty bs") (auto simp: one_worker_def)

lemma player_run_in_order:
  "played (player_run (map (\<lambda>b. Audio (Some b)) bs @ replicate k (Settled 0)))
     = take (Suc k) (nonempty bs)
   \<and> (isAudioPlaying (player_run (map (\<lambda>b. Audio (Some b)) bs @ replicate k (Settled 0)))
        \<longleftrightarrow> k < length (nonempty bs))"
proof (cases "nonempty bs")
  case Nil
  then show ?thesis
    using player_run_completions [of "map (\<lambda>b. Audio (Some b)) bs" k]
      player_run_enqueues [of bs] player_run_enqueues_playing [of bs]
    by simp
next
  case (Cons c cs)
  then have "length (played (player_run (map (\<lambda>b. Audio (Some b)) bs))) = 1"
    using player_run_enqueues [of bs] by simp
  then show ?thesis
    using player_run_completions [of "map (\<lambda>b. Audio (Some b)) bs" k]
      player_run_enqueues_playing [of bs] Cons
    by auto
qed

lemma three_buffers_run:
  "player_run [Audio (Some [1, 0]), Audio (Some [2, 0]), Audio (Some [3, 0]),
               Settled 0, Settled 0, Settled 0]
     = \<lparr>audioQueue = [], isAudioPlaying = False, awaiting = [],
        played = [[1, 0], [2, 0], [3, 0]]\<rparr>"
  by (simp add: player_run_def page_loaded_def onmessage_audio_def processAudioQueue_def
      settled_def while_audioQueue.simps Let_def)

lemma first_buffer_run:
  "player_run [Audio (Some [1, 0])]
     = \<lparr>audioQueue = [], isAudioPlaying = True, awaiting = [[1, 0]], played = [[1, 0]]\<rparr>"
  by (simp add: player_run_def page_loaded_def onmessage_audio_def processAudioQueue_def
      while_audioQueue.simps Let_def)

text \<open>
  C6: the buffers are handed to the player in the order in which they were enqueued
  (what has been played, followed by what is still queued, is the sequence of enqueued
  buffers, those of length 0 skipped); at most one buffer is being played at any moment
  and an enqueue during playback only appends to the queue; the worker is idle exactly
  when the queue is empty and no buffer is being played, and then every enqueued buffer
  has been played. Every completion signal hands the next queued buffer to the player:
  after \<open>k\<close> further signals \<open>k\<close> more buffers have been played, and the worker stays busy
  until the signal after the last buffer. In particular, when \<open>C1, ..., Cn\<close> are enqueued
  and \<open>k\<close> signals follow, \<open>C1, ..., C(k+1)\<close> have been played, and the worker is idle
  exactly from the \<open>n\<close>-th signal on.
\<close>

theorem playback_in_order:
  "played (player_run evs) @ nonempty (audioQueue (player_run evs)) = nonempty (enqueued evs)
   \<and> length (awaiting (player_run evs)) \<le> 1
   \<and> (isAudioPlaying (player_run evs) \<longleftrightarrow> awaiting (player_run evs) \<noteq> [])
   \<and> (\<not> isAudioPlaying (player_run evs) \<longleftrightarrow>
         audioQueue (player_run evs) = [] \<and> awaiting (player_run evs) = [])
   \<and> (\<not> isAudioPlaying (player_run evs) \<longrightarrow> played (player_run evs) = nonempty (enqueued evs))
   \<and> (isAudioPlaying s \<longrightarrow>
         onmessage_audio s (Some b) = s\<lparr>audioQueue := audioQueue s @ [b]\<rparr>)
   \<and> played (player_run (evs @ replicate k (Settled 0)))
        = take (length (played (player_run evs)) + k) (nonempty (enqueued evs))
   \<and> (isAudioPlaying (player_run (evs @ replicate k (Settled 0))) \<longleftrightarrow>
         isAudioPlaying (player_run evs)
         \<and> length (played (player_run evs)) + k \<le> length (nonempty (enqueued evs)))
   \<and> played (player_run (map (\<lambda>b. Audio (Some b)) bs @ replicate k (Settled 0)))
        = take (Suc k) (nonempty bs)
   \<and> (isAudioPlaying (player_run (map (\<lambda>b. Audio (Some b)) bs @ replicate k (Settled 0)))
         \<longleftrightarrow> k < length (nonempty bs))"
proof -
  note w = player_run_worker [of evs, unfolded one_worker_def]
  note order = player_run_order [of evs]
  have all_played: "played (player_run evs) = nonempty (enqueued evs)"
    if "\<not> isAudioPlaying (player_run evs)"
  proof -
    from that w have "audioQueue (player_run evs) = []" by blast
    with order show ?thesis by (simp add: nonempty_Nil)
  qed
  have enq: "onmessage_audio s (Some b) = s\<lparr>audioQueue := audioQueue s @ [b]\<rparr>"
    if "isAudioPlaying s"
    using that by (simp add: onmessage_audio_def Let_def)
  show ?thesis
    using w order all_played enq player_run_completions [of evs k] player_run_in_order [of bs k]
    by blast
qed

theorem playback_in_order_witness:
  "\<not> isAudioPlaying (player_run [Audio (Some [1, 0]), Audio (Some [2, 0]), Audio (Some [3, 0]),
                                 Settled 0, Settled 0, Settled 0])
   \<and> played (player_run [Audio (Some [1, 0]), Audio (Some [2, 0]), Audio (Some [3, 0]),
                         Settled 0, Settled 0, Settled 0]) = [[1, 0], [2, 0], [3, 0]]
   \<and> isAudioPlaying (player_run [Audio (Some [1, 0])])
   \<and> onmessage_audio (player_run [Audio (Some [1, 0])]) (Some [2, 0])
       = \<lparr>audioQueue = [[2, 0]], isAudioPlaying = True, awaiting = [[1, 0]],
          played = [[1, 0]]\<rparr>"
  using playback_in_order [of "[Audio (Some [1, 0]), Audio (Some [2, 0]), Audio (Some [3, 0]),
                                Settled 0, Settled 0, Settled 0]"
                              "player_run [Audio (Some [1, 0])]" "[2, 0]" 0 "[]"]
  by (simp add: three_buffers_run first_buffer_run enqueued_def nonempty_def)

end
